theory Spec2Isabelle
  imports Main
begin

section \<open>Data model\<close>

text \<open>
  The conversation models of \<^verbatim>\<open>forum_conversation/abstract_models.py\<close>: topics and
  posts are rows of two tables; a model instance is a row together with what Python keeps
  on the object (the memoised \<^verbatim>\<open>_first_post\<close>/\<^verbatim>\<open>_last_post\<close> of a topic, the cached
  related topic of a post). Primary keys are optional on an instance: an instance that was
  never saved has none.
\<close>

type_synonym ident = nat
type_synonym datetime = int

datatype error = AttributeError | DoesNotExist | ValidationError | AssertionError | Diverges

record post =
  post_id :: "ident option"
  post_topic_id :: ident
  post_poster :: ident
  post_subject :: string
  post_content :: string
  post_approved :: bool
  post_updates_count :: nat
  post_created :: datetime
  post_updated :: datetime

record topic =
  topic_id :: "ident option"
  topic_forum_id :: ident
  topic_poster :: ident
  topic_subject :: string
  topic_slug :: string
  topic_type :: nat
  topic_status :: nat
  topic_approved :: bool
  topic_posts_count :: nat
  topic_views_count :: nat
  topic_created :: datetime
  topic_updated :: datetime

text \<open>
  A topic instance: the columns and the two attributes that \<^verbatim>\<open>first_post\<close> and
  \<^verbatim>\<open>last_post\<close> set. \<open>None\<close> is "no such attribute" (\<^verbatim>\<open>hasattr\<close> is false),
  \<open>Some None\<close> is the memoised value \<^verbatim>\<open>None\<close>.
\<close>

record topic_obj = topic +
  first_post_attr :: "post option option"
  last_post_attr :: "post option option"

text \<open>
  A post instance: the columns and the related topic object once \<^verbatim>\<open>self.topic\<close> has been
  read or assigned (\<open>None\<close>: not loaded yet).
\<close>

record post_obj = post +
  topic_attr :: "topic_obj option"

text \<open>
  Modelled from the spec: the Forum model (the hierarchy node) is not part of the sources.
  The spec gives it an id, a nullable parent reference, a type (category, forum or link)
  and the aggregate counters topic_count and post_count.
\<close>

datatype forum_type = Category | Forum | Link

record forum =
  forum_id :: ident
  forum_parent :: "ident option"
  ftype :: forum_type
  topic_count :: nat
  post_count :: nat

text \<open>
  Calls of the two tracker updates are recorded in \<open>calls\<close>, a ghost field that no
  operation reads: it makes "which tracker update was invoked" a property of the state.
\<close>

datatype call = Topic_update_trackers "ident option" | Forum_update_trackers ident

record db =
  forums :: "forum list"
  topics :: "topic list"
  posts :: "post list"
  calls :: "call list"

text \<open>
  An operation either raises, leaving the database as it was at the raise (nothing in the
  sources opens a transaction), or returns the database and a value.
\<close>

type_synonym 'a result = "(error \<times> db) + (db \<times> 'a)"

section \<open>Queries\<close>

definition topic_fresh :: "topic \<Rightarrow> topic_obj" where
  "topic_fresh r = topic.extend r (topic_obj.fields None None)"

definition find_topic :: "db \<Rightarrow> ident \<Rightarrow> topic option" where
  "find_topic s k = find (\<lambda>r. topic_id r = Some k) (topics s)"

text \<open>\<^verbatim>\<open>_default_manager.get(pk=k)\<close>: a new instance of the stored row.\<close>

definition get_topic :: "db \<Rightarrow> ident \<Rightarrow> topic_obj option" where
  "get_topic s k = map_option topic_fresh (find_topic s k)"

definition get_forum :: "db \<Rightarrow> ident \<Rightarrow> forum option" where
  "get_forum s k = find (\<lambda>f. forum_id f = k) (forums s)"

text \<open>\<^verbatim>\<open>self.posts.all()\<close> in storage order: the rows whose topic is this instance's key.\<close>

definition topic_posts :: "db \<Rightarrow> 'a topic_scheme \<Rightarrow> post list" where
  "topic_posts s t = filter (\<lambda>p. Some (post_topic_id p) = topic_id t) (posts s)"

text \<open>
  \<^verbatim>\<open>order_by('created')\<close> and \<^verbatim>\<open>order_by('-created')\<close>. SQL leaves the order of rows with
  equal keys open; both are modelled as stable sorts of the storage order.
\<close>

definition order_by_created :: "post list \<Rightarrow> post list" where
  "order_by_created ps = sort_key post_created ps"

definition order_by_created_desc :: "post list \<Rightarrow> post list" where
  "order_by_created_desc ps = sort_key (\<lambda>p. - post_created p) ps"

section \<open>Persistence layer\<close>

text \<open>
  Modelled from the spec: the base \<^verbatim>\<open>save\<close> and \<^verbatim>\<open>delete\<close> of \<^verbatim>\<open>DatedModel\<close> are not part
  of the sources. The spec asks for an atomic save and delete of one entity. A save
  updates the row of the instance's key when there is one and inserts a row otherwise,
  under a new key when the instance has none; \<^verbatim>\<open>created\<close> is stamped when the row is
  inserted and \<^verbatim>\<open>updated\<close> on every save, unless \<^verbatim>\<open>auto_now\<close> is off (the switch that
  \<^verbatim>\<open>_simple_save\<close> turns). Deleting a topic deletes its posts with it; a delete leaves the
  instance without a key.
\<close>

definition next_id :: "ident option list \<Rightarrow> ident" where
  "next_id ks = Suc (foldr max (map (\<lambda>k. case k of None \<Rightarrow> 0 | Some n \<Rightarrow> n) ks) 0)"

definition topic_stamp :: "bool \<Rightarrow> bool \<Rightarrow> datetime \<Rightarrow> topic_obj \<Rightarrow> topic_obj" where
  "topic_stamp auto_now add now self =
     (let self1 = (if add then self\<lparr>topic_created := now\<rparr> else self)
      in if auto_now then self1\<lparr>topic_updated := now\<rparr> else self1)"

definition topic_model_save :: "bool \<Rightarrow> datetime \<Rightarrow> db \<Rightarrow> topic_obj \<Rightarrow> db \<times> topic_obj" where
  "topic_model_save auto_now now s self =
     (case topic_id self of
        None \<Rightarrow>
          (let self1 = topic_stamp auto_now True now
                         (self\<lparr>topic_id := Some (next_id (map topic_id (topics s)))\<rparr>)
           in (s\<lparr>topics := topics s @ [topic.truncate self1]\<rparr>, self1))
      | Some k \<Rightarrow>
          (case find_topic s k of
             None \<Rightarrow>
               (let self1 = topic_stamp auto_now True now self
                in (s\<lparr>topics := topics s @ [topic.truncate self1]\<rparr>, self1))
           | Some old \<Rightarrow>
               (let self1 = topic_stamp auto_now False now self
                in (s\<lparr>topics := map (\<lambda>r. if topic_id r = Some k then topic.truncate self1 else r)
                                   (topics s)\<rparr>, self1))))"

definition topic_model_delete :: "db \<Rightarrow> topic_obj \<Rightarrow> topic_obj result" where
  "topic_model_delete s self =
     (case topic_id self of
        None \<Rightarrow> Inl (AssertionError, s)
      | Some k \<Rightarrow>
          Inr (s\<lparr>topics := filter (\<lambda>r. topic_id r \<noteq> Some k) (topics s),
                 posts := filter (\<lambda>p. post_topic_id p \<noteq> k) (posts s)\<rparr>,
               self\<lparr>topic_id := None\<rparr>))"

definition post_model_save :: "datetime \<Rightarrow> db \<Rightarrow> post_obj \<Rightarrow> db \<times> post_obj" where
  "post_model_save now s self =
     (case post_id self of
        None \<Rightarrow>
          (let self1 = self\<lparr>post_id := Some (next_id (map post_id (posts s))),
                             post_created := now, post_updated := now\<rparr>
           in (s\<lparr>posts := posts s @ [post.truncate self1]\<rparr>, self1))
      | Some k \<Rightarrow>
          (case find (\<lambda>r. post_id r = Some k) (posts s) of
             None \<Rightarrow>
               (let self1 = self\<lparr>post_created := now, post_updated := now\<rparr>
                in (s\<lparr>posts := posts s @ [post.truncate self1]\<rparr>, self1))
           | Some old \<Rightarrow>
               (let self1 = self\<lparr>post_updated := now\<rparr>
                in (s\<lparr>posts := map (\<lambda>r. if post_id r = Some k then post.truncate self1 else r)
                                  (posts s)\<rparr>, self1))))"

definition post_model_delete :: "db \<Rightarrow> post_obj \<Rightarrow> post_obj result" where
  "post_model_delete s self =
     (case post_id self of
        None \<Rightarrow> Inl (AssertionError, s)
      | Some k \<Rightarrow>
          Inr (s\<lparr>posts := filter (\<lambda>r. post_id r \<noteq> Some k) (posts s)\<rparr>,
               self\<lparr>post_id := None\<rparr>))"

section \<open>Cascade propagator\<close>

text \<open>
  Modelled from the spec: \<^verbatim>\<open>Forum.update_trackers\<close> is not part of the sources. The spec:
  given a forum, recompute its own topic and post aggregate counters, then repeat for its
  parent, continuing to the root; it stops at a node with no parent. The counters are
  rollups recomputed from the child records: \<open>topic_count\<close> is the number of topics
  attached to the forum or to one of its descendants, \<open>post_count\<close> the sum of their
  \<open>posts_count\<close>. The walk is a loop over parent references. A hierarchy of \<open>n\<close> forums
  without a cycle is walked in at most \<open>n\<close> steps; a walk that is still not at a root
  after that many steps would never stop, which is the value \<open>Diverges\<close>.
\<close>

fun forum_chain :: "nat \<Rightarrow> forum list \<Rightarrow> ident \<Rightarrow> ident list" where
  "forum_chain 0 fs k = []"
| "forum_chain (Suc n) fs k =
     k # (case find (\<lambda>f. forum_id f = k) fs of
            None \<Rightarrow> []
          | Some f \<Rightarrow> (case forum_parent f of None \<Rightarrow> [] | Some p \<Rightarrow> forum_chain n fs p))"

definition in_subtree :: "forum list \<Rightarrow> ident \<Rightarrow> ident \<Rightarrow> bool" where
  "in_subtree fs root k = (root \<in> set (forum_chain (Suc (length fs)) fs k))"

definition forum_topics :: "db \<Rightarrow> ident \<Rightarrow> topic list" where
  "forum_topics s root = filter (\<lambda>t. in_subtree (forums s) root (topic_forum_id t)) (topics s)"

definition forum_recount :: "db \<Rightarrow> forum \<Rightarrow> forum" where
  "forum_recount s f =
     f\<lparr>topic_count := length (forum_topics s (forum_id f)),
       post_count := sum_list (map topic_posts_count (forum_topics s (forum_id f)))\<rparr>"

fun forum_walk :: "nat \<Rightarrow> db \<Rightarrow> ident \<Rightarrow> (error \<times> db) + db" where
  "forum_walk 0 s k = Inl (Diverges, s)"
| "forum_walk (Suc n) s k =
     (case get_forum s k of
        None \<Rightarrow> Inl (DoesNotExist, s)
      | Some f \<Rightarrow>
          (let s1 = s\<lparr>forums := map (\<lambda>g. if forum_id g = k then forum_recount s f else g)
                                  (forums s)\<rparr>
           in case forum_parent f of None \<Rightarrow> Inr s1 | Some p \<Rightarrow> forum_walk n s1 p))"

definition forum_update_trackers :: "db \<Rightarrow> ident \<Rightarrow> (error \<times> db) + db" where
  "forum_update_trackers s k =
     forum_walk (Suc (length (forums s))) (s\<lparr>calls := calls s @ [Forum_update_trackers k]\<rparr>) k"

section \<open>Topics\<close>

text \<open>
  \<^verbatim>\<open>first_post\<close> and \<^verbatim>\<open>last_post\<close>: the memoised value when the attribute is set,
  otherwise the head of the ordered posts (\<^verbatim>\<open>None\<close> when there is none), which is stored
  on the instance.
\<close>

definition first_post :: "db \<Rightarrow> topic_obj \<Rightarrow> post option \<times> topic_obj" where
  "first_post s self =
     (case first_post_attr self of
        Some v \<Rightarrow> (v, self)
      | None \<Rightarrow>
          (let ps = order_by_created (topic_posts s self);
               v = (case ps of [] \<Rightarrow> None | p # _ \<Rightarrow> Some p)
           in (v, self\<lparr>first_post_attr := Some v\<rparr>)))"

definition last_post :: "db \<Rightarrow> topic_obj \<Rightarrow> post option \<times> topic_obj" where
  "last_post s self =
     (case last_post_attr self of
        Some v \<Rightarrow> (v, self)
      | None \<Rightarrow>
          (let ps = order_by_created_desc (topic_posts s self);
               v = (case ps of [] \<Rightarrow> None | p # _ \<Rightarrow> Some p)
           in (v, self\<lparr>last_post_attr := Some v\<rparr>)))"

text \<open>
  \<^verbatim>\<open>clean\<close>: reads the topic's forum and raises for a category or a link. The forum's
  \<^verbatim>\<open>is_category\<close> and \<^verbatim>\<open>is_link\<close> are its type, as the spec has it.
\<close>

definition topic_clean :: "db \<Rightarrow> topic_obj \<Rightarrow> unit result" where
  "topic_clean s self =
     (case get_forum s (topic_forum_id self) of
        None \<Rightarrow> Inl (DoesNotExist, s)
      | Some f \<Rightarrow>
          if ftype f = Category \<or> ftype f = Link then Inl (ValidationError, s)
          else Inr (s, ()))"

text \<open>
  \<^verbatim>\<open>_simple_save\<close>: the base save with \<^verbatim>\<open>auto_now\<close> of \<^verbatim>\<open>updated\<close> switched off.
\<close>

definition topic_simple_save :: "datetime \<Rightarrow> db \<Rightarrow> topic_obj \<Rightarrow> db \<times> topic_obj" where
  "topic_simple_save now s self = topic_model_save False now s self"

text \<open>
  \<^verbatim>\<open>update_trackers\<close>. \<^verbatim>\<open>self._last_post.created\<close> raises AttributeError when the
  topic has no post, before anything is saved.
\<close>

definition topic_update_trackers :: "datetime \<Rightarrow> db \<Rightarrow> topic_obj \<Rightarrow> topic_obj result" where
  "topic_update_trackers now s0 self0 =
     (let s = s0\<lparr>calls := calls s0 @ [Topic_update_trackers (topic_id self0)]\<rparr>;
          self1 = self0\<lparr>topic_posts_count := length (topic_posts s self0)\<rparr>;
          ps = order_by_created_desc (topic_posts s self1);
          self2 = self1\<lparr>last_post_attr := Some (case ps of [] \<Rightarrow> None | p # _ \<Rightarrow> Some p)\<rparr>
      in case last_post_attr self2 of
           Some (Some lp) \<Rightarrow>
             (let self3 = self2\<lparr>topic_updated := post_created lp\<rparr>;
                  (s1, self4) = topic_simple_save now s self3
              in case forum_update_trackers s1 (topic_forum_id self4) of
                   Inl e \<Rightarrow> Inl e
                 | Inr s2 \<Rightarrow> Inr (s2, self4))
         | _ \<Rightarrow> Inl (AttributeError, s))"

text \<open>
  \<^verbatim>\<open>save\<close>. \<^verbatim>\<open>if self.pk\<close> is false for no key and for the key 0; \<^verbatim>\<open>get\<close> raises
  DoesNotExist when the row is gone. \<^verbatim>\<open>old_instance.forum\<close> reads the forum the topic was
  stored under (DoesNotExist when there is none); model instances compare by key, so
  \<^verbatim>\<open>old_instance.forum != self.forum\<close> compares that forum's key with the forum key of
  the instance. A model instance is always true, so \<^verbatim>\<open>if old_instance.forum\<close> decides
  nothing. \<^verbatim>\<open>refresh\<close> reloads the old forum by key. \<^verbatim>\<open>slugify\<close> is not part of the
  sources and is a parameter.
\<close>

definition topic_save ::
  "(string \<Rightarrow> string) \<Rightarrow> datetime \<Rightarrow> db \<Rightarrow> topic_obj \<Rightarrow> topic_obj result" where
  "topic_save slugify now s self =
     (case (case topic_id self of
              None \<Rightarrow> Inr None
            | Some k \<Rightarrow>
                if k = 0 then Inr None
                else (case get_topic s k of
                        None \<Rightarrow> Inl (DoesNotExist, s)
                      | Some old \<Rightarrow> Inr (Some old))) of
        Inl e \<Rightarrow> Inl e
      | Inr old_instance \<Rightarrow>
          (let self1 = self\<lparr>topic_slug := slugify (topic_subject self)\<rparr>;
               (s1, self2) = topic_model_save True now s self1
           in case old_instance of
                None \<Rightarrow> Inr (s1, self2)
              | Some old \<Rightarrow>
                  (case get_forum s1 (topic_forum_id old) of
                     None \<Rightarrow> Inl (DoesNotExist, s1)
                   | Some old_forum \<Rightarrow>
                       if forum_id old_forum \<noteq> topic_forum_id self2 then
                         (case topic_update_trackers now s1 self2 of
                            Inl e \<Rightarrow> Inl e
                          | Inr (s2, self3) \<Rightarrow>
                              (case get_forum s2 (forum_id old_forum) of
                                 None \<Rightarrow> Inl (DoesNotExist, s2)
                               | Some refreshed \<Rightarrow>
                                   (case forum_update_trackers s2 (forum_id refreshed) of
                                      Inl e \<Rightarrow> Inl e
                                    | Inr s3 \<Rightarrow> Inr (s3, self3))))
                       else Inr (s1, self2))))"

text \<open>\<^verbatim>\<open>delete\<close>: the base delete, then the forum-level update on the instance's forum.\<close>

definition topic_delete :: "db \<Rightarrow> topic_obj \<Rightarrow> topic_obj result" where
  "topic_delete s self =
     (case topic_model_delete s self of
        Inl e \<Rightarrow> Inl e
      | Inr (s1, self1) \<Rightarrow>
          (case forum_update_trackers s1 (topic_forum_id self1) of
             Inl e \<Rightarrow> Inl e
           | Inr s2 \<Rightarrow> Inr (s2, self1)))"

section \<open>Posts\<close>

text \<open>\<^verbatim>\<open>self.topic\<close>: the cached related object, loaded by key on first use.\<close>

definition post_topic :: "db \<Rightarrow> post_obj \<Rightarrow> (error \<times> db) + topic_obj" where
  "post_topic s self =
     (case topic_attr self of
        Some t \<Rightarrow> Inr t
      | None \<Rightarrow>
          (case get_topic s (post_topic_id self) of
             None \<Rightarrow> Inl (DoesNotExist, s)
           | Some t \<Rightarrow> Inr t))"

text \<open>
  \<^verbatim>\<open>is_topic_head\<close> and \<^verbatim>\<open>is_topic_tail\<close>: \<^verbatim>\<open>.id\<close> of \<^verbatim>\<open>None\<close> raises AttributeError.
  The value comes with the post instance, whose topic object now holds the memoised post.
\<close>

definition is_topic_head :: "db \<Rightarrow> post_obj \<Rightarrow> (bool \<times> post_obj) result" where
  "is_topic_head s self =
     (case post_topic s self of
        Inl e \<Rightarrow> Inl e
      | Inr t \<Rightarrow>
          (case first_post s t of
             (None, t1) \<Rightarrow> Inl (AttributeError, s)
           | (Some fp, t1) \<Rightarrow> Inr (s, (post_id fp = post_id self, self\<lparr>topic_attr := Some t1\<rparr>))))"

definition is_topic_tail :: "db \<Rightarrow> post_obj \<Rightarrow> (bool \<times> post_obj) result" where
  "is_topic_tail s self =
     (case post_topic s self of
        Inl e \<Rightarrow> Inl e
      | Inr t \<Rightarrow>
          (case last_post s t of
             (None, t1) \<Rightarrow> Inl (AttributeError, s)
           | (Some lp, t1) \<Rightarrow> Inr (s, (post_id lp = post_id self, self\<lparr>topic_attr := Some t1\<rparr>))))"

text \<open>
  \<^verbatim>\<open>position\<close>: the count of the topic's posts created strictly before this one or
  carrying its id.
\<close>

definition position :: "db \<Rightarrow> post_obj \<Rightarrow> (error \<times> db) + nat" where
  "position s self =
     (case post_topic s self of
        Inl e \<Rightarrow> Inl e
      | Inr t \<Rightarrow>
          Inr (length (filter (\<lambda>r. post_created r < post_created self \<or> post_id r = post_id self)
                         (topic_posts s t))))"

text \<open>
  \<^verbatim>\<open>save\<close>: the base save, the mirror of subject and approved flag onto the in-memory
  topic when the post is the topic head, then the topic's tracker update.
\<close>

definition post_save :: "datetime \<Rightarrow> db \<Rightarrow> post_obj \<Rightarrow> post_obj result" where
  "post_save now s self =
     (let (s1, self1) = post_model_save now s self
      in case is_topic_head s1 self1 of
           Inl e \<Rightarrow> Inl e
         | Inr (s2, (head, self2)) \<Rightarrow>
             (case post_topic s2 self2 of
                Inl e \<Rightarrow> Inl e
              | Inr t \<Rightarrow>
                  (let t1 = (if head \<and> (post_subject self2 \<noteq> topic_subject t
                                          \<or> post_approved self2 \<noteq> topic_approved t)
                             then t\<lparr>topic_subject := post_subject self2,
                                    topic_approved := post_approved self2\<rparr>
                             else t)
                   in case topic_update_trackers now s2 t1 of
                        Inl e \<Rightarrow> Inl e
                      | Inr (s3, t2) \<Rightarrow> Inr (s3, self2\<lparr>topic_attr := Some t2\<rparr>))))"

text \<open>
  \<^verbatim>\<open>self.is_topic_head and self.is_topic_tail\<close>, the condition of \<^verbatim>\<open>delete\<close>:
  \<^verbatim>\<open>and\<close> reads \<^verbatim>\<open>is_topic_tail\<close> only when \<^verbatim>\<open>is_topic_head\<close> is true.
\<close>

definition head_and_tail :: "db \<Rightarrow> post_obj \<Rightarrow> (bool \<times> post_obj) result" where
  "head_and_tail s self =
     (case is_topic_head s self of
        Inl e \<Rightarrow> Inl e
      | Inr (s1, (head, self1)) \<Rightarrow>
          if head then is_topic_tail s1 self1 else Inr (s1, (False, self1)))"

text \<open>
  \<^verbatim>\<open>delete\<close>: the topic's \<^verbatim>\<open>delete\<close> when the post is head and tail, otherwise the base
  delete of the post and the topic's tracker update.
\<close>

definition post_delete :: "datetime \<Rightarrow> db \<Rightarrow> post_obj \<Rightarrow> post_obj result" where
  "post_delete now s self =
     (case head_and_tail s self of
        Inl e \<Rightarrow> Inl e
      | Inr (s1, (both, self1)) \<Rightarrow>
          (case post_topic s1 self1 of
             Inl e \<Rightarrow> Inl e
           | Inr t \<Rightarrow>
               if both then
                 (case topic_delete s1 t of
                    Inl e \<Rightarrow> Inl e
                  | Inr (s2, t1) \<Rightarrow> Inr (s2, self1\<lparr>topic_attr := Some t1\<rparr>))
               else
                 (case post_model_delete s1 self1 of
                    Inl e \<Rightarrow> Inl e
                  | Inr (s2, self2) \<Rightarrow>
                      (case topic_update_trackers now s2 t of
                         Inl e \<Rightarrow> Inl e
                       | Inr (s3, t1) \<Rightarrow> Inr (s3, self2\<lparr>topic_attr := Some t1\<rparr>)))))"

section \<open>Search\<close>

text \<open>
  Modelled from the spec: the search form (\<^verbatim>\<open>forum_search/forms.py\<close>) is not part of the
  sources, only its tests are. The spec: the search accepts a free-text query, the
  requesting identity and optional scoping flags (topic subjects only, a poster name, an
  explicit set of forum ids); the forums the identity may read are intersected with the
  explicit set; when no permitted forum is left, or the form fails validation, the result
  is empty, which is not an error; otherwise the index is queried with the free text, the
  forum ids and the poster name. The permission handler's \<^verbatim>\<open>can_read\<close>, the form's
  validation and the index's free-text match are collaborators and are parameters. An
  index document has the fields the spec lists.
\<close>

type_synonym identity = nat

record index_doc =
  doc_post_id :: ident
  doc_forum_id :: ident
  doc_topic_subject :: string
  doc_poster_name :: string
  doc_content :: string

record search_form =
  form_q :: string
  form_search_topics :: bool
  form_search_poster_name :: "string option"
  form_search_forums :: "ident list"

text \<open>
  Modelled from the spec: the permitted-forum set, the forums the identity has read
  permission on intersected with the explicit forum ids when the form gives any.
\<close>

definition search_scope ::
  "(identity \<Rightarrow> forum \<Rightarrow> bool) \<Rightarrow> forum list \<Rightarrow> identity \<Rightarrow> search_form \<Rightarrow> ident list" where
  "search_scope can_read fs user form =
     (let permitted = map forum_id (filter (can_read user) fs)
      in if form_search_forums form = [] then permitted
         else filter (\<lambda>k. k \<in> set (form_search_forums form)) permitted)"

text \<open>
  Modelled from the spec: the search. An invalid form and an empty permitted-forum set
  both give the empty result.
\<close>

definition search ::
  "(search_form \<Rightarrow> bool) \<Rightarrow> (identity \<Rightarrow> forum \<Rightarrow> bool) \<Rightarrow> (string \<Rightarrow> string \<Rightarrow> bool)
     \<Rightarrow> forum list \<Rightarrow> index_doc list \<Rightarrow> identity \<Rightarrow> search_form \<Rightarrow> error + index_doc list" where
  "search is_valid can_read text_match fs index user form =
     (if \<not> is_valid form then Inr []
      else
        (let scope = search_scope can_read fs user form
         in if scope = [] then Inr []
            else Inr (filter
                   (\<lambda>d. doc_forum_id d \<in> set scope
                        \<and> text_match (form_q form)
                             (if form_search_topics form then doc_topic_subject d
                              else doc_content d)
                        \<and> (case form_search_poster_name form of
                              None \<Rightarrow> True
                            | Some n \<Rightarrow> doc_poster_name d = n))
                   index)))"

section \<open>Fresh instances and the vocabulary of the statements\<close>

text \<open>A post instance as \<^verbatim>\<open>Post.objects.get\<close> returns it: the row, no related object loaded.\<close>

definition post_fresh :: "post \<Rightarrow> post_obj" where
  "post_fresh r = post.extend r (post_obj.fields None)"

text \<open>
  The position as the spec words it: the 1-based rank by creation time among the topic's
  posts, ties broken by id.
\<close>

definition id_before :: "ident option \<Rightarrow> ident option \<Rightarrow> bool" where
  "id_before a b = (case (a, b) of (Some x, Some y) \<Rightarrow> x < y | _ \<Rightarrow> False)"

definition rank_created_id :: "post list \<Rightarrow> post \<Rightarrow> nat" where
  "rank_created_id ps p =
     Suc (length (filter (\<lambda>r. post_created r < post_created p
                            \<or> (post_created r = post_created p \<and> id_before (post_id r) (post_id p))) ps))"




section \<open>Example states\<close>

text \<open>Rows and states used as concrete inputs below.\<close>

definition a_post :: "ident \<Rightarrow> ident \<Rightarrow> string \<Rightarrow> datetime \<Rightarrow> post" where
  "a_post k t subj c =
     \<lparr>post_id = Some k, post_topic_id = t, post_poster = 1, post_subject = subj,
      post_content = ''text'', post_approved = True, post_updates_count = 0,
      post_created = c, post_updated = c\<rparr>"

definition a_topic :: "ident \<Rightarrow> ident \<Rightarrow> string \<Rightarrow> nat \<Rightarrow> datetime \<Rightarrow> topic" where
  "a_topic k f subj n u =
     \<lparr>topic_id = Some k, topic_forum_id = f, topic_poster = 1, topic_subject = subj,
      topic_slug = subj, topic_type = 0, topic_status = 0, topic_approved = True,
      topic_posts_count = n, topic_views_count = 0, topic_created = 1, topic_updated = u\<rparr>"

definition a_forum :: "ident \<Rightarrow> ident option \<Rightarrow> forum_type \<Rightarrow> nat \<Rightarrow> nat \<Rightarrow> forum" where
  "a_forum k p ty tc pc =
     \<lparr>forum_id = k, forum_parent = p, ftype = ty, topic_count = tc, post_count = pc\<rparr>"

definition db_two_posts :: db where
  "db_two_posts =
     \<lparr>forums = [a_forum 1 None Forum 1 2],
      topics = [a_topic 1 1 ''Hello'' 2 20],
      posts = [a_post 1 1 ''Hello'' 10, a_post 2 1 ''World'' 20],
      calls = []\<rparr>"

definition db_tied_posts :: db where
  "db_tied_posts =
     \<lparr>forums = [a_forum 1 None Forum 1 2],
      topics = [a_topic 1 1 ''Hello'' 2 10],
      posts = [a_post 1 1 ''Hello'' 10, a_post 2 1 ''World'' 10],
      calls = []\<rparr>"



text \<open>A topic whose stored counters are out of date: two posts, none counted.\<close>

definition db_stale_topic :: db where
  "db_stale_topic =
     \<lparr>forums = [a_forum 1 None Forum 0 0],
      topics = [a_topic 1 1 ''Hello'' 0 0],
      posts = [a_post 1 1 ''Hello'' 10, a_post 2 1 ''World'' 20],
      calls = []\<rparr>"

definition db_stale_topic_updated :: db where
  "db_stale_topic_updated =
     \<lparr>forums = [a_forum 1 None Forum 1 2],
      topics = [a_topic 1 1 ''Hello'' 2 20],
      posts = [a_post 1 1 ''Hello'' 10, a_post 2 1 ''World'' 20],
      calls = [Topic_update_trackers (Some 1), Forum_update_trackers 1]\<rparr>"

text \<open>
  A topic whose subject was edited through the topic itself (subject \<open>''Old''\<close>, first post
  \<open>''Hello''\<close>), and a reply to it that was never saved.
\<close>

definition db_renamed_topic :: db where
  "db_renamed_topic =
     \<lparr>forums = [a_forum 1 None Forum 1 1],
      topics = [a_topic 1 1 ''Old'' 1 10],
      posts = [a_post 1 1 ''Hello'' 10],
      calls = []\<rparr>"

definition post_unsaved :: post_obj where
  "post_unsaved = post_fresh ((a_post 0 1 ''World'' 0)\<lparr>post_id := None\<rparr>)"



text \<open>
  Two forums and a stored topic of the first that has no post yet (a topic is saved before
  its first post); and that topic's instance with the second forum assigned.
\<close>

definition db_empty_topic :: db where
  "db_empty_topic =
     \<lparr>forums = [a_forum 1 None Forum 0 0, a_forum 2 None Forum 0 0],
      topics = [a_topic 1 1 ''Hello'' 0 1],
      posts = [],
      calls = []\<rparr>"

definition topic_moved :: topic_obj where
  "topic_moved = topic_fresh (a_topic 1 2 ''Hello'' 0 1)"

text \<open>
  Two forums, a document of the second in the index, and a form that restricts the search
  to the second forum.
\<close>

definition two_forums :: "forum list" where
  "two_forums = [a_forum 1 None Forum 0 0, a_forum 2 None Forum 1 1]"

definition doc_in_second :: index_doc where
  "doc_in_second =
     \<lparr>doc_post_id = 1, doc_forum_id = 2, doc_topic_subject = ''Hello'',
      doc_poster_name = ''ann'', doc_content = ''Hello''\<rparr>"

definition form_second :: search_form where
  "form_second =
     \<lparr>form_q = ''Hello'', form_search_topics = False, form_search_poster_name = None,
      form_search_forums = [2]\<rparr>"

section \<open>Auxiliary lemmas\<close>

lemma forum_walk_frame:
  "forum_walk n s k = Inr s' \<Longrightarrow> topics s' = topics s \<and> posts s' = posts s \<and> calls s' = calls s"
proof (induction n arbitrary: s k)
  case 0
  then show ?case by simp
next
  case (Suc n)
  then show ?case
    by (auto simp: Let_def split: option.splits)
qed

lemma forum_update_trackers_frame:
  assumes "forum_update_trackers s k = Inr s'"
  shows "topics s' = topics s" and "posts s' = posts s"
    and "calls s' = calls s @ [Forum_update_trackers k]"
  using forum_walk_frame [OF assms [unfolded forum_update_trackers_def]] by simp_all


lemma find_map_replace:
  "find P xs = Some old \<Longrightarrow> P x \<Longrightarrow> find P (map (\<lambda>r. if P r then x else r) xs) = Some x"
  by (induction xs) (auto split: if_splits)

lemma find_snoc_new:
  "find P xs = None \<Longrightarrow> P x \<Longrightarrow> find P (xs @ [x]) = Some x"
  by (induction xs) (auto split: if_splits)

lemma next_id_greater: "Some k \<in> set ks \<Longrightarrow> k < next_id ks"
  unfolding next_id_def by (induction ks) (auto simp: less_Suc_eq_le max_def)

lemma find_next_id: "find (\<lambda>r. f r = Some (next_id (map f xs))) xs = None"
proof -
  have "\<not> (\<exists>r\<in>set xs. f r = Some (next_id (map f xs)))"
  proof
    assume "\<exists>r\<in>set xs. f r = Some (next_id (map f xs))"
    then obtain r where "r \<in> set xs" "f r = Some (next_id (map f xs))" by blast
    then have "Some (next_id (map f xs)) \<in> set (map f xs)" by force
    from next_id_greater [OF this] show False by simp
  qed
  then show ?thesis by (simp add: find_None_iff)
qed

lemma sort_key_Nil_iff: "sort_key f xs = [] \<longleftrightarrow> xs = []"
  by (metis set_empty set_sort)

lemma hd_sort_key_in: "xs \<noteq> [] \<Longrightarrow> hd (sort_key f xs) \<in> set xs"
  by (metis hd_in_set set_sort sort_key_Nil_iff)

lemma hd_sort_key_least:
  assumes "x \<in> set xs" shows "f (hd (sort_key f xs)) \<le> f x"
proof -
  obtain y ys where ys: "sort_key f xs = y # ys"
    using assms by (cases "sort_key f xs") (auto simp: sort_key_Nil_iff)
  have "sorted (map f (sort_key f xs))" by simp
  moreover have "x \<in> set (sort_key f xs)" using assms by simp
  ultimately show ?thesis unfolding ys by auto
qed

lemma topic_model_save_result:
  assumes "topic_model_save an now s t = (s', t')"
  shows "\<exists>k add. t' = topic_stamp an add now (t\<lparr>topic_id := Some k\<rparr>)
           \<and> (topic_id t \<noteq> None \<longrightarrow> topic_id t = Some k)
           \<and> find_topic s' k = Some (topic.truncate t')
           \<and> posts s' = posts s \<and> forums s' = forums s \<and> calls s' = calls s"
proof (cases "topic_id t")
  case None
  let ?k = "next_id (map topic_id (topics s))"
  let ?t1 = "topic_stamp an True now (t\<lparr>topic_id := Some ?k\<rparr>)"
  have r: "s' = s\<lparr>topics := topics s @ [topic.truncate ?t1]\<rparr>" "t' = ?t1"
    using assms None by (auto simp: topic_model_save_def Let_def)
  have id1: "topic_id (topic.truncate ?t1) = Some ?k"
    by (simp add: topic_stamp_def topic.truncate_def Let_def)
  have "find (\<lambda>r. topic_id r = Some ?k) (topics s @ [topic.truncate ?t1]) = Some (topic.truncate ?t1)"
    by (rule find_snoc_new [OF find_next_id id1])
  then have "find_topic s' ?k = Some (topic.truncate t')"
    by (simp add: r find_topic_def)
  then show ?thesis
    by (intro exI [of _ ?k] exI [of _ True]) (simp add: r None)
next
  case (Some k)
  have tk: "t\<lparr>topic_id := Some k\<rparr> = t" using Some by simp
  show ?thesis
  proof (cases "find_topic s k")
    case None
    let ?t1 = "topic_stamp an True now t"
    have r: "s' = s\<lparr>topics := topics s @ [topic.truncate ?t1]\<rparr>" "t' = ?t1"
      using assms Some None by (auto simp: topic_model_save_def Let_def)
    have id1: "topic_id (topic.truncate ?t1) = Some k"
      using Some by (simp add: topic_stamp_def topic.truncate_def Let_def)
    have "find (\<lambda>r. topic_id r = Some k) (topics s @ [topic.truncate ?t1]) = Some (topic.truncate ?t1)"
      by (rule find_snoc_new [OF None [unfolded find_topic_def] id1])
    then have "find_topic s' k = Some (topic.truncate t')"
      by (simp add: r find_topic_def)
    then show ?thesis
      by (intro exI [of _ k] exI [of _ True]) (simp add: r tk \<open>topic_id t = Some k\<close>)
  next
    case (Some old)
    let ?t1 = "topic_stamp an False now t"
    have r: "s' = s\<lparr>topics := map (\<lambda>r. if topic_id r = Some k then topic.truncate ?t1 else r) (topics s)\<rparr>"
        "t' = ?t1"
      using assms \<open>topic_id t = Some k\<close> Some by (auto simp: topic_model_save_def Let_def)
    have id1: "topic_id (topic.truncate ?t1) = Some k"
      using \<open>topic_id t = Some k\<close> by (simp add: topic_stamp_def topic.truncate_def Let_def)
    have "find (\<lambda>r. topic_id r = Some k)
            (map (\<lambda>r. if topic_id r = Some k then topic.truncate ?t1 else r) (topics s))
          = Some (topic.truncate ?t1)"
      by (rule find_map_replace [OF Some [unfolded find_topic_def] id1])
    then have "find_topic s' k = Some (topic.truncate t')"
      by (simp add: r find_topic_def)
    then show ?thesis
      by (intro exI [of _ k] exI [of _ False]) (simp add: r tk \<open>topic_id t = Some k\<close>)
  qed
qed

lemma topic_posts_calls [simp]: "topic_posts (s\<lparr>calls := c\<rparr>) t = topic_posts s t"
  by (simp add: topic_posts_def)

lemma topic_update_trackers_result:
  assumes "topic_update_trackers now s t = Inr (s', t')"
  shows "\<exists>k add lp rest. topic_id t = Some k
           \<and> order_by_created_desc (topic_posts s t) = lp # rest
           \<and> t' = topic_stamp False add now
                    (t\<lparr>topic_posts_count := length (topic_posts s t),
                       last_post_attr := Some (Some lp),
                       topic_updated := post_created lp\<rparr>)
           \<and> find_topic s' k = Some (topic.truncate t')
           \<and> posts s' = posts s
           \<and> calls s' = calls s @ [Topic_update_trackers (Some k),
                                    Forum_update_trackers (topic_forum_id t)]"
proof (cases "order_by_created_desc (topic_posts s t)")
  case Nil
  then show ?thesis using assms
    by (simp add: topic_update_trackers_def Let_def topic_posts_def)
next
  case (Cons lp rest)
  let ?s0 = "s\<lparr>calls := calls s @ [Topic_update_trackers (topic_id t)]\<rparr>"
  let ?t3 = "t\<lparr>topic_posts_count := length (topic_posts s t),
                last_post_attr := Some (Some lp), topic_updated := post_created lp\<rparr>"
  obtain s1 t4 where sv: "topic_model_save False now ?s0 ?t3 = (s1, t4)"
    by (cases "topic_model_save False now ?s0 ?t3")
  have tp: "topic_posts ?s0 (t\<lparr>topic_posts_count := length (topic_posts s t)\<rparr>) = topic_posts s t"
    by (simp add: topic_posts_def)
  from assms Cons sv tp
  have fw: "forum_update_trackers s1 (topic_forum_id t4) = Inr s'" and tt: "t' = t4"
    by (auto simp: topic_update_trackers_def Let_def topic_simple_save_def split: sum.splits)
  from topic_model_save_result [OF sv] obtain k add where
    ks: "t4 = topic_stamp False add now (?t3\<lparr>topic_id := Some k\<rparr>)"
      "topic_id ?t3 \<noteq> None \<longrightarrow> topic_id ?t3 = Some k"
      "find_topic s1 k = Some (topic.truncate t4)"
      "posts s1 = posts ?s0" "calls s1 = calls ?s0"
    by blast
  have "topic_posts s t \<noteq> []"
    using Cons by (auto simp: order_by_created_desc_def)
  then have "topic_id t \<noteq> None"
    by (cases "topic_id t") (auto simp: topic_posts_def)
  then have idk: "topic_id t = Some k" using ks(2) by simp
  then have t3k: "?t3\<lparr>topic_id := Some k\<rparr> = ?t3" by simp
  have ff: "topic_forum_id t4 = topic_forum_id t"
    unfolding ks(1) by (simp add: topic_stamp_def Let_def)
  note fr = forum_update_trackers_frame [OF fw]
  have "find_topic s' k = Some (topic.truncate t')"
    using ks(3) fr(1) tt by (simp add: find_topic_def)
  moreover have "posts s' = posts s" using fr(2) ks(4) by simp
  moreover have "calls s' = calls s @ [Topic_update_trackers (Some k),
                                    Forum_update_trackers (topic_forum_id t)]"
    using fr(3) ks(5) ff idk by simp
  ultimately show ?thesis using idk Cons ks(1) t3k tt by auto
qed

lemma length_filter_or:
  "length (filter (\<lambda>q. P q \<or> Q q) xs)
     = length (filter P xs) + length (filter (\<lambda>q. \<not> P q \<and> Q q) xs)"
  by (induction xs) auto

lemma filter_key_singleton:
  "distinct (map f xs) \<Longrightarrow> x \<in> set xs \<Longrightarrow> filter (\<lambda>q. f q = f x) xs = [x]"
proof (induction xs)
  case Nil
  then show ?case by simp
next
  case (Cons y ys)
  show ?case
  proof (cases "y = x")
    case True
    have "\<forall>q\<in>set ys. f q \<noteq> f x" using Cons.prems(1) True by (auto simp: image_iff)
    then have "filter (\<lambda>q. f q = f x) ys = []" by (simp add: filter_empty_conv)
    then show ?thesis using True by simp
  next
    case False
    then have "x \<in> set ys" using Cons.prems(2) by simp
    moreover have "f y \<noteq> f x" using Cons.prems(1) \<open>x \<in> set ys\<close> by (auto simp: image_iff)
    ultimately show ?thesis using Cons by simp
  qed
qed

lemma find_topic_id: "find_topic s k = Some tr \<Longrightarrow> topic_id tr = Some k"
  by (auto simp: find_topic_def dest: find_Some_iff [THEN iffD1])

lemma topic_posts_fresh [simp]: "topic_posts s (topic_fresh tr) = topic_posts s tr"
  by (simp add: topic_posts_def topic_fresh_def topic.defs)

lemma post_topic_fresh:
  "find_topic s (post_topic_id r) = Some tr \<Longrightarrow> post_topic s (post_fresh r) = Inr (topic_fresh tr)"
  by (simp add: post_topic_def post_fresh_def post.defs post_obj.defs get_topic_def)

lemma post_fresh_fields [simp]:
  "post_id (post_fresh r) = post_id r" "post_created (post_fresh r) = post_created r"
  "post_topic_id (post_fresh r) = post_topic_id r" "topic_attr (post_fresh r) = None"
  "post_subject (post_fresh r) = post_subject r" "post_approved (post_fresh r) = post_approved r"
  by (simp_all add: post_fresh_def post.defs post_obj.defs)

lemma position_own_topic:
  assumes d: "distinct (map post_id (posts s))" and r: "r \<in> set (posts s)"
    and t: "find_topic s (post_topic_id r) = Some tr"
  shows "position s (post_fresh r)
          = Inr (Suc (length (filter (\<lambda>q. post_created q < post_created r) (topic_posts s tr))))"
proof -
  let ?ps = "topic_posts s tr"
  have tid: "topic_id tr = Some (post_topic_id r)" by (rule find_topic_id [OF t])
  have rin: "r \<in> set ?ps" using r tid by (simp add: topic_posts_def)
  have dps: "distinct (map post_id ?ps)"
    using d by (simp add: topic_posts_def distinct_map_filter)
  have "filter (\<lambda>q. \<not> post_created q < post_created r \<and> post_id q = post_id r) ?ps
          = filter (\<lambda>q. \<not> post_created q < post_created r) (filter (\<lambda>q. post_id q = post_id r) ?ps)"
    by (simp add: conj_commute)
  also have "\<dots> = [r]"
    by (simp add: filter_key_singleton [OF dps rin])
  finally have one: "length (filter (\<lambda>q. \<not> post_created q < post_created r \<and> post_id q = post_id r) ?ps) = 1"
    by simp
  show ?thesis
    by (simp add: position_def post_topic_fresh [OF t] length_filter_or one)
qed

lemmas ex_defs = a_post_def a_topic_def a_forum_def db_two_posts_def db_tied_posts_def

section \<open>Position of a post\<close>

text \<open>
  C6 as stated: the position of a post is its 1-based rank among the topic's posts ordered
  by creation time, ties broken by id. The code counts the posts created strictly before
  it and the post itself, so two posts created at the same time share a position: here
  the second of two such posts has position 1, where the spec's rank is 2.
\<close>

theorem position_tie_counterexample:
  "position db_tied_posts (post_fresh (a_post 2 1 ''World'' 10)) = Inr 1
   \<and> rank_created_id (topic_posts db_tied_posts (a_topic 1 1 ''Hello'' 2 10)) (a_post 2 1 ''World'' 10) = 2"
  by (simp add: ex_defs position_def post_topic_def get_topic_def find_topic_def topic_posts_def
      rank_created_id_def id_before_def topic_fresh_def topic.defs topic_obj.defs)

text \<open>
  C6, amended: for a stored post \<open>r\<close> of a topic, read from a fresh instance, the position
  is one plus the number of the topic's posts created strictly before \<open>r\<close>; when no other
  post of the topic has the creation time of \<open>r\<close>, this is the spec's rank.
\<close>

theorem position_counts_earlier:
  assumes "distinct (map post_id (posts s))" and "r \<in> set (posts s)"
    and "find_topic s (post_topic_id r) = Some tr"
  shows "position s (post_fresh r)
           = Inr (Suc (length (filter (\<lambda>q. post_created q < post_created r) (topic_posts s tr))))
         \<and> ((\<forall>q\<in>set (topic_posts s tr). post_created q = post_created r \<longrightarrow> q = r)
              \<longrightarrow> position s (post_fresh r) = Inr (rank_created_id (topic_posts s tr) r))"
proof (intro conjI impI)
  show p: "position s (post_fresh r)
           = Inr (Suc (length (filter (\<lambda>q. post_created q < post_created r) (topic_posts s tr))))"
    by (rule position_own_topic [OF assms])
  assume u: "\<forall>q\<in>set (topic_posts s tr). post_created q = post_created r \<longrightarrow> q = r"
  have "filter (\<lambda>q. post_created q < post_created r
                  \<or> (post_created q = post_created r \<and> id_before (post_id q) (post_id r)))
               (topic_posts s tr)
        = filter (\<lambda>q. post_created q < post_created r) (topic_posts s tr)"
  proof (rule filter_cong [OF refl])
    fix q assume "q \<in> set (topic_posts s tr)"
    with u have "post_created q = post_created r \<Longrightarrow> q = r" by blast
    moreover have "\<not> id_before (post_id r) (post_id r)"
      by (simp add: id_before_def split: option.splits)
    ultimately show "(post_created q < post_created r
                  \<or> (post_created q = post_created r \<and> id_before (post_id q) (post_id r)))
               = (post_created q < post_created r)" by blast
  qed
  then show "position s (post_fresh r) = Inr (rank_created_id (topic_posts s tr) r)"
    by (simp add: p rank_created_id_def)
qed

theorem position_counts_earlier_witness:
  "distinct (map post_id (posts db_two_posts))
   \<and> a_post 2 1 ''World'' 20 \<in> set (posts db_two_posts)
   \<and> find_topic db_two_posts (post_topic_id (a_post 2 1 ''World'' 20)) = Some (a_topic 1 1 ''Hello'' 2 20)
   \<and> position db_two_posts (post_fresh (a_post 2 1 ''World'' 20)) = Inr 2
   \<and> rank_created_id (topic_posts db_two_posts (a_topic 1 1 ''Hello'' 2 20)) (a_post 2 1 ''World'' 20) = 2"
proof -
  have h1: "distinct (map post_id (posts db_two_posts))" by (simp add: ex_defs)
  have h2: "a_post 2 1 ''World'' 20 \<in> set (posts db_two_posts)" by (simp add: ex_defs)
  have h3: "find_topic db_two_posts (post_topic_id (a_post 2 1 ''World'' 20))
              = Some (a_topic 1 1 ''Hello'' 2 20)"
    by (simp add: ex_defs find_topic_def)
  have h4: "\<forall>q\<in>set (topic_posts db_two_posts (a_topic 1 1 ''Hello'' 2 20)).
         post_created q = post_created (a_post 2 1 ''World'' 20) \<longrightarrow> q = a_post 2 1 ''World'' 20"
    by (simp add: ex_defs topic_posts_def)
  have r: "rank_created_id (topic_posts db_two_posts (a_topic 1 1 ''Hello'' 2 20)) (a_post 2 1 ''World'' 20) = 2"
    by (simp add: ex_defs topic_posts_def rank_created_id_def id_before_def)
  from position_counts_earlier [OF h1 h2 h3, THEN conjunct2, THEN mp, OF h4]
  have "position db_two_posts (post_fresh (a_post 2 1 ''World'' 20)) = Inr 2"
    unfolding r .
  with h1 h2 h3 r show ?thesis by blast
qed

section \<open>Validation of the topic's forum\<close>







section \<open>The topic's tracker update\<close>

lemma topic_stamp_fields [simp]:
  "topic_id (topic_stamp an add now t) = topic_id t"
  "topic_forum_id (topic_stamp an add now t) = topic_forum_id t"
  "topic_subject (topic_stamp an add now t) = topic_subject t"
  "topic_approved (topic_stamp an add now t) = topic_approved t"
  "topic_posts_count (topic_stamp an add now t) = topic_posts_count t"
  "topic_updated (topic_stamp False add now t) = topic_updated t"
  "first_post_attr (topic_stamp an add now t) = first_post_attr t"
  "last_post_attr (topic_stamp an add now t) = last_post_attr t"
  by (simp_all add: topic_stamp_def Let_def)

lemma topic_truncate_fields [simp]:
  "topic_id (topic.truncate t) = topic_id t"
  "topic_forum_id (topic.truncate t) = topic_forum_id t"
  "topic_subject (topic.truncate t) = topic_subject t"
  "topic_approved (topic.truncate t) = topic_approved t"
  "topic_posts_count (topic.truncate t) = topic_posts_count t"
  "topic_updated (topic.truncate t) = topic_updated t"
  by (simp_all add: topic.truncate_def)

lemma topic_posts_cong: "posts s' = posts s \<Longrightarrow> topic_id t' = topic_id t \<Longrightarrow> topic_posts s' t' = topic_posts s t"
  by (simp add: topic_posts_def)

lemma hd_desc_is_latest:
  assumes "order_by_created_desc ps = lp # rest"
  shows "lp \<in> set ps" and "post_created lp = Max (post_created ` set ps)"
proof -
  have ne: "ps \<noteq> []" using assms by (auto simp: order_by_created_desc_def)
  have lp: "lp = hd (sort_key (\<lambda>p. - post_created p) ps)"
    using assms by (simp add: order_by_created_desc_def)
  show in_ps: "lp \<in> set ps" unfolding lp by (rule hd_sort_key_in [OF ne])
  have "\<And>x. x \<in> set ps \<Longrightarrow> post_created x \<le> post_created lp"
    using hd_sort_key_least [of _ ps "\<lambda>p. - post_created p"] unfolding lp by simp
  then show "post_created lp = Max (post_created ` set ps)"
    using in_ps by (intro Max_eqI [symmetric]) auto
qed

text \<open>
  C2: for a topic with at least one attached post, after \<^verbatim>\<open>update_trackers\<close> completes the
  topic's \<^verbatim>\<open>updated\<close>, in memory and in its stored row, is the greatest creation time
  among the topic's posts, and the last-post reference is a post of the topic created at
  that time.
\<close>

theorem update_trackers_updated_is_last_created:
  assumes "topic_posts s t \<noteq> []" and "topic_update_trackers now s t = Inr (s', t')"
  shows "topic_updated t' = Max (post_created ` set (topic_posts s' t'))
         \<and> (\<exists>lp. last_post_attr t' = Some (Some lp) \<and> lp \<in> set (topic_posts s' t')
                  \<and> post_created lp = topic_updated t')
         \<and> (\<exists>k. topic_id t' = Some k
                  \<and> map_option topic_updated (find_topic s' k) = Some (topic_updated t'))"
proof -
  from topic_update_trackers_result [OF assms(2)] obtain k add lp rest where
    r: "topic_id t = Some k" "order_by_created_desc (topic_posts s t) = lp # rest"
       "t' = topic_stamp False add now
                    (t\<lparr>topic_posts_count := length (topic_posts s t),
                       last_post_attr := Some (Some lp),
                       topic_updated := post_created lp\<rparr>)"
       "find_topic s' k = Some (topic.truncate t')" "posts s' = posts s"
    by blast
  have tid: "topic_id t' = topic_id t" unfolding r(3) by simp
  have ps: "topic_posts s' t' = topic_posts s t"
    by (rule topic_posts_cong [OF r(5) tid])
  have up: "topic_updated t' = post_created lp" unfolding r(3) by simp
  have la: "last_post_attr t' = Some (Some lp)" unfolding r(3) by simp
  note h = hd_desc_is_latest [OF r(2)]
  show ?thesis
  proof (intro conjI)
    show "topic_updated t' = Max (post_created ` set (topic_posts s' t'))"
      using up h(2) ps by simp
    show "\<exists>lp. last_post_attr t' = Some (Some lp) \<and> lp \<in> set (topic_posts s' t')
                  \<and> post_created lp = topic_updated t'"
      using la h(1) up ps by auto
    show "\<exists>k. topic_id t' = Some k
                  \<and> map_option topic_updated (find_topic s' k) = Some (topic_updated t')"
      using tid r(1) r(4) by simp
  qed
qed

lemma update_trackers_stale_topic:
  "topic_update_trackers 99 db_stale_topic (topic_fresh (a_topic 1 1 ''Hello'' 0 0))
     = Inr (db_stale_topic_updated,
            (topic_fresh (a_topic 1 1 ''Hello'' 2 20))\<lparr>last_post_attr := Some (Some (a_post 2 1 ''World'' 20))\<rparr>)"
  by (simp add: db_stale_topic_def db_stale_topic_updated_def ex_defs topic_update_trackers_def
      topic_posts_def order_by_created_desc_def topic_simple_save_def topic_model_save_def
      find_topic_def topic_stamp_def forum_update_trackers_def get_forum_def forum_recount_def
      forum_topics_def in_subtree_def topic_fresh_def topic.defs topic_obj.defs Let_def)

theorem update_trackers_updated_is_last_created_witness:
  "topic_posts db_stale_topic (topic_fresh (a_topic 1 1 ''Hello'' 0 0)) \<noteq> []
   \<and> topic_update_trackers 99 db_stale_topic (topic_fresh (a_topic 1 1 ''Hello'' 0 0))
       = Inr (db_stale_topic_updated,
              (topic_fresh (a_topic 1 1 ''Hello'' 2 20))\<lparr>last_post_attr := Some (Some (a_post 2 1 ''World'' 20))\<rparr>)
   \<and> Max (post_created ` set (topic_posts db_stale_topic_updated (a_topic 1 1 ''Hello'' 2 20))) = 20
   \<and> map_option topic_updated (find_topic db_stale_topic_updated 1) = Some 20"
proof -
  let ?t = "topic_fresh (a_topic 1 1 ''Hello'' 0 0)"
  let ?t' = "(topic_fresh (a_topic 1 1 ''Hello'' 2 20))\<lparr>last_post_attr := Some (Some (a_post 2 1 ''World'' 20))\<rparr>"
  have h1: "topic_posts db_stale_topic ?t \<noteq> []"
    by (simp add: db_stale_topic_def ex_defs topic_posts_def topic_fresh_def topic.defs topic_obj.defs)
  note h2 = update_trackers_stale_topic
  have tp: "topic_posts db_stale_topic_updated ?t' = topic_posts db_stale_topic_updated (a_topic 1 1 ''Hello'' 2 20)"
    by (simp add: topic_posts_def topic_fresh_def topic.defs topic_obj.defs)
  have tu: "topic_updated ?t' = 20" "topic_id ?t' = Some 1"
    by (simp_all add: ex_defs topic_fresh_def topic.defs topic_obj.defs)
  from update_trackers_updated_is_last_created [OF h1 h2]
  have "Max (post_created ` set (topic_posts db_stale_topic_updated (a_topic 1 1 ''Hello'' 2 20))) = 20"
    and "map_option topic_updated (find_topic db_stale_topic_updated 1) = Some 20"
    unfolding tp tu by auto
  with h1 h2 show ?thesis by blast
qed

text \<open>
  C8: \<^verbatim>\<open>_simple_save\<close> writes the topic's row and nothing else: it makes no tracker
  update, touches no forum and no post, and stores the instance's \<^verbatim>\<open>updated\<close> as it is,
  whatever the time of the save. So a tracker update that completes has made exactly one
  topic-level and one forum-level update, and the stored \<^verbatim>\<open>updated\<close> is the creation
  time of the post that heads the posts in descending order of creation.
\<close>

theorem update_trackers_lightweight_save:
  "(case topic_simple_save now s t of
      (s1, t1) \<Rightarrow> calls s1 = calls s \<and> forums s1 = forums s \<and> posts s1 = posts s
                  \<and> topic_updated t1 = topic_updated t
                  \<and> (\<exists>k. topic_id t1 = Some k
                          \<and> map_option topic_updated (find_topic s1 k) = Some (topic_updated t)))
   \<and> (topic_update_trackers now s t = Inr (s', t') \<longrightarrow>
         calls s' = calls s @ [Topic_update_trackers (topic_id t),
                               Forum_update_trackers (topic_forum_id t)]
         \<and> (\<exists>k lp rest. topic_id t = Some k
               \<and> order_by_created_desc (topic_posts s t) = lp # rest
               \<and> map_option topic_updated (find_topic s' k) = Some (post_created lp)))"
proof (intro conjI impI)
  obtain s1 t1 where sv: "topic_model_save False now s t = (s1, t1)"
    by (cases "topic_model_save False now s t")
  from topic_model_save_result [OF sv] obtain k add where
    r: "t1 = topic_stamp False add now (t\<lparr>topic_id := Some k\<rparr>)"
       "find_topic s1 k = Some (topic.truncate t1)"
       "posts s1 = posts s" "forums s1 = forums s" "calls s1 = calls s"
    by blast
  have "topic_updated t1 = topic_updated t" "topic_id t1 = Some k"
    unfolding r(1) by simp_all
  then show "case topic_simple_save now s t of
      (s1, t1) \<Rightarrow> calls s1 = calls s \<and> forums s1 = forums s \<and> posts s1 = posts s
                  \<and> topic_updated t1 = topic_updated t
                  \<and> (\<exists>k. topic_id t1 = Some k
                          \<and> map_option topic_updated (find_topic s1 k) = Some (topic_updated t))"
    using r sv by (simp add: topic_simple_save_def)
next
  assume a: "topic_update_trackers now s t = Inr (s', t')"
  from topic_update_trackers_result [OF a] obtain k add lp rest where
    r: "topic_id t = Some k" "order_by_created_desc (topic_posts s t) = lp # rest"
       "t' = topic_stamp False add now
                    (t\<lparr>topic_posts_count := length (topic_posts s t),
                       last_post_attr := Some (Some lp),
                       topic_updated := post_created lp\<rparr>)"
       "find_topic s' k = Some (topic.truncate t')"
       "calls s' = calls s @ [Topic_update_trackers (Some k),
                                    Forum_update_trackers (topic_forum_id t)]"
    by blast
  show "calls s' = calls s @ [Topic_update_trackers (topic_id t),
                               Forum_update_trackers (topic_forum_id t)]"
    using r(1) r(5) by simp
  have "map_option topic_updated (find_topic s' k) = Some (post_created lp)"
    unfolding r(4) r(3) by simp
  then show "\<exists>k lp rest. topic_id t = Some k
               \<and> order_by_created_desc (topic_posts s t) = lp # rest
               \<and> map_option topic_updated (find_topic s' k) = Some (post_created lp)"
    using r(1) r(2) by blast
qed

theorem update_trackers_lightweight_save_witness:
  "topic_update_trackers 99 db_stale_topic (topic_fresh (a_topic 1 1 ''Hello'' 0 0))
       = Inr (db_stale_topic_updated,
              (topic_fresh (a_topic 1 1 ''Hello'' 2 20))\<lparr>last_post_attr := Some (Some (a_post 2 1 ''World'' 20))\<rparr>)
   \<and> calls db_stale_topic_updated
       = calls db_stale_topic @ [Topic_update_trackers (Some 1), Forum_update_trackers 1]
   \<and> map_option topic_updated (find_topic db_stale_topic_updated 1) = Some 20"
proof -
  note h = update_trackers_stale_topic
  have f: "topic_id (topic_fresh (a_topic 1 1 ''Hello'' 0 0)) = Some 1"
     "topic_forum_id (topic_fresh (a_topic 1 1 ''Hello'' 0 0)) = 1"
    by (simp_all add: ex_defs topic_fresh_def topic.defs topic_obj.defs)
  from update_trackers_lightweight_save [THEN conjunct2, THEN mp, OF h]
  have "calls db_stale_topic_updated
       = calls db_stale_topic @ [Topic_update_trackers (Some 1), Forum_update_trackers 1]"
    unfolding f by blast
  moreover have "map_option topic_updated (find_topic db_stale_topic_updated 1) = Some 20"
    by (simp add: db_stale_topic_updated_def ex_defs find_topic_def)
  ultimately show ?thesis using h by blast
qed

section \<open>Post mutations\<close>

lemma first_post_result:
  "first_post s t = (v, t1) \<Longrightarrow> t1 = t\<lparr>first_post_attr := Some v\<rparr>"
  by (auto simp: first_post_def Let_def split: option.splits)


lemma first_post_unset:
  "first_post_attr t = None \<Longrightarrow>
     fst (first_post s t) = (case order_by_created (topic_posts s t) of [] \<Rightarrow> None | p # _ \<Rightarrow> Some p)"
  by (simp add: first_post_def Let_def)

lemma last_post_unset:
  "last_post_attr t = None \<Longrightarrow>
     fst (last_post s t) = (case order_by_created_desc (topic_posts s t) of [] \<Rightarrow> None | p # _ \<Rightarrow> Some p)"
  by (simp add: last_post_def Let_def)

lemma post_topic_cached [simp]: "post_topic s (p\<lparr>topic_attr := Some t\<rparr>) = Inr t"
  by (simp add: post_topic_def)

lemma is_topic_head_result:
  assumes "is_topic_head s p = Inr (s1, (h, p1))"
  shows "\<exists>t fp. s1 = s \<and> post_topic s p = Inr t \<and> fst (first_post s t) = Some fp
           \<and> h = (post_id fp = post_id p)
           \<and> p1 = p\<lparr>topic_attr := Some (t\<lparr>first_post_attr := Some (Some fp)\<rparr>)\<rparr>"
proof -
  from assms obtain t where t: "post_topic s p = Inr t"
    by (auto simp: is_topic_head_def split: sum.splits)
  obtain v t1 where f: "first_post s t = (v, t1)" by (cases "first_post s t")
  from assms t f obtain fp where v: "v = Some fp"
    by (cases v) (auto simp: is_topic_head_def)
  have t1: "t1 = t\<lparr>first_post_attr := Some (Some fp)\<rparr>"
    using first_post_result [OF f] v by simp
  from assms t f v t1 show ?thesis
    by (auto simp: is_topic_head_def)
qed


lemma post_truncate_fields [simp]:
  "post_id (post.truncate p) = post_id p"
  "post_topic_id (post.truncate p) = post_topic_id p"
  "post_subject (post.truncate p) = post_subject p"
  "post_approved (post.truncate p) = post_approved p"
  "post_created (post.truncate p) = post_created p"
  by (simp_all add: post.truncate_def)

lemma post_model_save_result:
  assumes "post_model_save now s p = (s1, p1)"
  shows "topics s1 = topics s \<and> forums s1 = forums s \<and> calls s1 = calls s
         \<and> topic_attr p1 = topic_attr p \<and> post_topic_id p1 = post_topic_id p
         \<and> post_subject p1 = post_subject p \<and> post_approved p1 = post_approved p
         \<and> post_id p1 \<noteq> None
         \<and> post.truncate p1 \<in> set (posts s1)
         \<and> (\<forall>q\<in>set (posts s1). post_id q = post_id p1 \<longrightarrow> q = post.truncate p1)"
proof (cases "post_id p")
  case None
  let ?k = "next_id (map post_id (posts s))"
  have "\<forall>q\<in>set (posts s). post_id q \<noteq> Some ?k"
    using find_next_id [of post_id "posts s"] by (simp add: find_None_iff)
  then show ?thesis using assms None
    by (auto simp: post_model_save_def Let_def)
next
  case (Some k)
  show ?thesis
  proof (cases "find (\<lambda>r. post_id r = Some k) (posts s)")
    case None
    then have "\<forall>q\<in>set (posts s). post_id q \<noteq> Some k" by (simp add: find_None_iff)
    then show ?thesis using assms Some None
      by (auto simp: post_model_save_def Let_def)
  next
    case (Some old)
    then have "\<exists>q\<in>set (posts s). post_id q = Some k"
      by (auto simp: find_Some_iff)
    then show ?thesis using assms \<open>post_id p = Some k\<close> Some
      by (auto simp: post_model_save_def Let_def)
  qed
qed

lemma post_topic_cong:
  "topics s1 = topics s \<Longrightarrow> topic_attr p1 = topic_attr p \<Longrightarrow> post_topic_id p1 = post_topic_id p
   \<Longrightarrow> post_topic s p = Inr t \<Longrightarrow> post_topic s1 p1 = Inr t"
  by (auto simp: post_topic_def get_topic_def find_topic_def split: option.splits)


lemma topic_posts_truncate: "topic.truncate tb = topic.truncate t \<Longrightarrow> topic_posts s tb = topic_posts s t"
  by (auto simp: topic_posts_def topic.truncate_def)



lemma post_save_result:
  assumes "post_save now s p = Inr (s', p')"
  shows "\<exists>s1 p1 t fp tm t2. post_model_save now s p = (s1, p1) \<and> post_topic s1 p1 = Inr t
           \<and> fst (first_post s1 t) = Some fp
           \<and> tm = (if post_id fp = post_id p1
                       \<and> (post_subject p1 \<noteq> topic_subject t \<or> post_approved p1 \<noteq> topic_approved t)
                    then t\<lparr>first_post_attr := Some (Some fp),
                            topic_subject := post_subject p1, topic_approved := post_approved p1\<rparr>
                    else t\<lparr>first_post_attr := Some (Some fp)\<rparr>)
           \<and> topic_update_trackers now s1 tm = Inr (s', t2)
           \<and> p' = p1\<lparr>topic_attr := Some t2\<rparr>"
proof -
  obtain s1 p1 where sv: "post_model_save now s p = (s1, p1)"
    by (cases "post_model_save now s p")
  from assms sv obtain h p2 where hd: "is_topic_head s1 p1 = Inr (s1, (h, p2))"
    by (auto simp: post_save_def split: sum.splits dest: is_topic_head_result)
  from is_topic_head_result [OF hd] obtain t fp where
    t: "post_topic s1 p1 = Inr t" "fst (first_post s1 t) = Some fp"
       "h = (post_id fp = post_id p1)"
       "p2 = p1\<lparr>topic_attr := Some (t\<lparr>first_post_attr := Some (Some fp)\<rparr>)\<rparr>"
    by blast
  from assms sv hd t show ?thesis
    by (auto simp: post_save_def Let_def split: sum.splits if_splits)
qed





lemmas eval_defs =
  ex_defs topic_fresh_def post_fresh_def topic.defs topic_obj.defs post.defs post_obj.defs
  find_topic_def get_topic_def get_forum_def topic_posts_def order_by_created_def
  order_by_created_desc_def next_id_def topic_stamp_def topic_model_save_def
  topic_model_delete_def post_model_save_def post_model_delete_def in_subtree_def
  forum_topics_def forum_recount_def forum_update_trackers_def first_post_def last_post_def
  topic_clean_def topic_simple_save_def topic_update_trackers_def topic_save_def
  topic_delete_def post_topic_def is_topic_head_def is_topic_tail_def position_def
  post_save_def head_and_tail_def post_delete_def Let_def

section \<open>Mirror of the first post on the topic\<close>

text \<open>
  C3 as stated: after any save of a post of a topic, the topic's stored subject is the
  subject of its first post. The save mirrors subject and approved flag only when the
  saved post is the topic head: a reply saved to a topic whose subject differs from its
  first post's leaves the stored subject as it was.
\<close>

theorem post_save_reply_counterexample:
  "(case post_save 20 db_renamed_topic post_unsaved of
      Inl e \<Rightarrow> False
    | Inr (s', p') \<Rightarrow>
        map_option topic_subject (find_topic s' 1) = Some ''Old''
        \<and> map_option post_subject (fst (first_post s' (topic_fresh (a_topic 1 1 ''Old'' 2 20))))
            = Some ''Hello'')"
  by (simp add: eval_defs db_renamed_topic_def post_unsaved_def)

text \<open>
  C3, amended: after a save of a post whose topic instance has no memoised first post,
  the topic is stored and has a first post; when the saved post is that first post, the
  stored subject and approved flag are the post's; otherwise they are those the topic
  instance held. One tracker update is made, and it is the only write to the topic: the
  base save of the post leaves the topic table alone.
\<close>

theorem post_save_mirrors_head:
  assumes "post_topic s p = Inr t" and "first_post_attr t = None" and "topic_id t = Some k"
    and "post_save now s p = Inr (s', p')"
  shows "(\<exists>row fp rest. find_topic s' k = Some row
            \<and> order_by_created (topic_posts s' row) = fp # rest
            \<and> (if post_id fp = post_id p'
                then fp = post.truncate p' \<and> topic_subject row = post_subject fp
                     \<and> topic_approved row = post_approved fp
                else topic_subject row = topic_subject t \<and> topic_approved row = topic_approved t))
         \<and> topics (fst (post_model_save now s p)) = topics s
         \<and> calls s' = calls s @ [Topic_update_trackers (Some k),
                                  Forum_update_trackers (topic_forum_id t)]"
proof -
  from post_save_result [OF assms(4)] obtain sa pa ta fp tm t2 where
    r: "post_model_save now s p = (sa, pa)" "post_topic sa pa = Inr ta"
       "fst (first_post sa ta) = Some fp"
       "tm = (if post_id fp = post_id pa
                       \<and> (post_subject pa \<noteq> topic_subject ta \<or> post_approved pa \<noteq> topic_approved ta)
                    then ta\<lparr>first_post_attr := Some (Some fp),
                            topic_subject := post_subject pa, topic_approved := post_approved pa\<rparr>
                    else ta\<lparr>first_post_attr := Some (Some fp)\<rparr>)"
       "topic_update_trackers now sa tm = Inr (s', t2)" "p' = pa\<lparr>topic_attr := Some t2\<rparr>"
    by blast
  note ms = post_model_save_result [OF r(1)]
  have "post_topic sa pa = Inr t" using ms by (intro post_topic_cong [OF _ _ _ assms(1)]) simp_all
  with r(2) have ta: "ta = t" by simp
  have tk: "topic_id tm = Some k" and tf: "topic_forum_id tm = topic_forum_id t"
    using r(4) ta assms(3) by simp_all
  from topic_update_trackers_result [OF r(5)] obtain k' add lp rest' where
    u: "topic_id tm = Some k'"
       "t2 = topic_stamp False add now
                    (tm\<lparr>topic_posts_count := length (topic_posts sa tm),
                       last_post_attr := Some (Some lp),
                       topic_updated := post_created lp\<rparr>)"
       "find_topic s' k' = Some (topic.truncate t2)" "posts s' = posts sa"
       "calls s' = calls sa @ [Topic_update_trackers (Some k'),
                                    Forum_update_trackers (topic_forum_id tm)]"
    by blast
  have kk: "k' = k" using u(1) tk by simp
  let ?row = "topic.truncate t2"
  have row: "find_topic s' k = Some ?row" using u(3) kk by simp
  have rid: "topic_id ?row = Some k" unfolding u(2) using tk by simp
  have tp: "topic_posts s' ?row = topic_posts sa t"
    using u(4) rid assms(3) by (simp add: topic_posts_def)
  obtain rest where ob: "order_by_created (topic_posts sa t) = fp # rest"
    using r(3) first_post_unset [OF assms(2), of sa] ta
    by (cases "order_by_created (topic_posts sa t)") auto
  have sub: "topic_subject ?row = topic_subject tm" "topic_approved ?row = topic_approved tm"
    unfolding u(2) by simp_all
  have pid: "post_id p' = post_id pa" "post.truncate p' = post.truncate pa"
    unfolding r(6) by (simp_all add: post.truncate_def)
  have cond: "if post_id fp = post_id p'
                then fp = post.truncate p' \<and> topic_subject ?row = post_subject fp
                     \<and> topic_approved ?row = post_approved fp
                else topic_subject ?row = topic_subject t \<and> topic_approved ?row = topic_approved t"
  proof (cases "post_id fp = post_id pa")
    case True
    have "fp \<in> set (order_by_created (topic_posts sa t))" unfolding ob by simp
    then have "fp \<in> set (posts sa)"
      by (auto simp: order_by_created_def topic_posts_def)
    with ms True have fpa: "fp = post.truncate pa" by blast
    have "topic_subject tm = post_subject pa \<and> topic_approved tm = post_approved pa"
      using r(4) True ta by auto
    then show ?thesis using True fpa sub pid by simp
  next
    case False
    then have "tm = t\<lparr>first_post_attr := Some (Some fp)\<rparr>" using r(4) ta by simp
    then show ?thesis using False sub pid by simp
  qed
  have "topics (fst (post_model_save now s p)) = topics s" using r(1) ms by simp
  moreover have "calls s' = calls s @ [Topic_update_trackers (Some k),
                                  Forum_update_trackers (topic_forum_id t)]"
    using u(5) kk tf ms by simp
  ultimately show ?thesis using row ob tp cond by auto
qed

theorem post_save_mirrors_head_witness:
  "post_topic db_two_posts ((post_fresh (a_post 1 1 ''Hello'' 10))\<lparr>post_subject := ''Hi''\<rparr>)
     = Inr (topic_fresh (a_topic 1 1 ''Hello'' 2 20))
   \<and> first_post_attr (topic_fresh (a_topic 1 1 ''Hello'' 2 20)) = None
   \<and> topic_id (topic_fresh (a_topic 1 1 ''Hello'' 2 20)) = Some 1
   \<and> (case post_save 30 db_two_posts ((post_fresh (a_post 1 1 ''Hello'' 10))\<lparr>post_subject := ''Hi''\<rparr>) of
         Inl e \<Rightarrow> False
       | Inr (s', p') \<Rightarrow>
           map_option topic_subject (find_topic s' 1) = Some ''Hi''
           \<and> calls s' = [Topic_update_trackers (Some 1), Forum_update_trackers 1])"
proof -
  let ?p = "(post_fresh (a_post 1 1 ''Hello'' 10))\<lparr>post_subject := ''Hi''\<rparr>"
  let ?t = "topic_fresh (a_topic 1 1 ''Hello'' 2 20)"
  have h1: "post_topic db_two_posts ?p = Inr ?t" by (simp add: eval_defs)
  have h2: "first_post_attr ?t = None" by (simp add: eval_defs)
  have h3: "topic_id ?t = Some 1" by (simp add: eval_defs)
  obtain s' p' where h4: "post_save 30 db_two_posts ?p = Inr (s', p')"
    and v: "map_option topic_subject (find_topic s' 1) = Some ''Hi''"
    by (simp add: eval_defs)
  have c: "calls db_two_posts = []" "topic_forum_id ?t = 1" by (simp_all add: eval_defs)
  from post_save_mirrors_head [OF h1 h2 h3 h4]
  have "calls s' = [Topic_update_trackers (Some 1), Forum_update_trackers 1]"
    unfolding c by simp
  with h1 h2 h3 h4 v show ?thesis by simp
qed

section \<open>The forum-level update\<close>

lemma find_forum_id: "find (\<lambda>g. forum_id g = k) fs = Some f \<Longrightarrow> forum_id f = k"
  by (auto simp: find_Some_iff)

lemma find_replace_other:
  "forum_id f' = k \<Longrightarrow> k' \<noteq> k \<Longrightarrow>
     find (\<lambda>g. forum_id g = k') (map (\<lambda>g. if forum_id g = k then f' else g) fs)
       = find (\<lambda>g. forum_id g = k') fs"
  by (induction fs) auto

lemma find_replace_key:
  assumes "find (\<lambda>g. forum_id g = k) fs = Some f" and "forum_id f' = k"
  shows "find (\<lambda>g. forum_id g = k') (map (\<lambda>g. if forum_id g = k then f' else g) fs)
           = (if k' = k then Some f' else find (\<lambda>g. forum_id g = k') fs)"
proof (cases "k' = k")
  case True
  then show ?thesis
    using find_map_replace [of "\<lambda>g. forum_id g = k" fs f f'] assms by simp
next
  case False
  then show ?thesis using find_replace_other [OF assms(2)] by simp
qed

lemma forum_chain_replace:
  assumes "find (\<lambda>g. forum_id g = k) fs = Some f" and "forum_id f' = k"
    and "forum_parent f' = forum_parent f"
  shows "forum_chain n (map (\<lambda>g. if forum_id g = k then f' else g) fs) x = forum_chain n fs x"
proof (induction n arbitrary: x)
  case 0
  then show ?case by simp
next
  case (Suc n)
  show ?case
  proof (cases "x = k")
    case True
    then show ?thesis
      using assms Suc by (simp add: find_replace_key [OF assms(1,2)] split: option.splits)
  next
    case False
    then show ?thesis
      using assms(2) Suc by (simp add: find_replace_other split: option.splits)
  qed
qed

lemma forum_recount_fields [simp]:
  "forum_id (forum_recount s f) = forum_id f" "forum_parent (forum_recount s f) = forum_parent f"
  "ftype (forum_recount s f) = ftype f"
  "topic_count (forum_recount s f) = length (forum_topics s (forum_id f))"
  "post_count (forum_recount s f) = sum_list (map topic_posts_count (forum_topics s (forum_id f)))"
  by (simp_all add: forum_recount_def)






lemma forum_topics_calls [simp]: "forum_topics (s\<lparr>calls := c\<rparr>) root = forum_topics s root"
  by (simp add: forum_topics_def)


section \<open>Deleting a post\<close>





section \<open>Tracker updates and topics without posts\<close>









section \<open>Saving a topic under another forum\<close>

lemma topic_model_save_auto_now:
  assumes "topic_model_save True now s t = (s1, t1)"
  shows "topic_forum_id t1 = topic_forum_id t" and "calls s1 = calls s"
    and "forums s1 = forums s"
    and "topic_id t = Some k \<Longrightarrow> topic_id t1 = Some k"
proof -
  from topic_model_save_result [OF assms] obtain k' add where
    r: "t1 = topic_stamp True add now (t\<lparr>topic_id := Some k'\<rparr>)"
       "topic_id t \<noteq> None \<longrightarrow> topic_id t = Some k'" "calls s1 = calls s"
       "forums s1 = forums s"
    by blast
  show "topic_forum_id t1 = topic_forum_id t" unfolding r(1) by simp
  show "calls s1 = calls s" by (rule r(3))
  show "forums s1 = forums s" by (rule r(4))
  show "topic_id t = Some k \<Longrightarrow> topic_id t1 = Some k" using r(2) unfolding r(1) by simp
qed

text \<open>
  A stored topic saved with the forum it is stored under: the save returns and makes no
  tracker update.
\<close>

lemma topic_save_same_forum:
  assumes "topic_id t = Some k" and "k \<noteq> 0" and "find_topic s k = Some old"
    and "get_forum s (topic_forum_id old) = Some f"
    and "topic_forum_id old = topic_forum_id t"
  shows "\<exists>s' t'. topic_save slugify now s t = Inr (s', t') \<and> calls s' = calls s"
proof -
  let ?t1 = "t\<lparr>topic_slug := slugify (topic_subject t)\<rparr>"
  obtain s1 t2 where sv: "topic_model_save True now s ?t1 = (s1, t2)"
    by (cases "topic_model_save True now s ?t1")
  note m = topic_model_save_auto_now [OF sv]
  have fo: "topic_forum_id (topic_fresh old) = topic_forum_id old"
    by (simp add: topic_fresh_def topic.defs)
  have gf: "get_forum s1 (topic_forum_id old) = Some f"
    using assms(4) m(3) by (simp add: get_forum_def)
  have "forum_id f = topic_forum_id t2"
    using assms(4,5) m(1) by (auto simp: get_forum_def dest: find_forum_id)
  then have "topic_save slugify now s t = Inr (s1, t2)"
    using assms(1,2,3) sv gf by (simp add: topic_save_def get_topic_def fo)
  then show ?thesis using m(2) by simp
qed

text \<open>
  A stored topic saved with another forum, when the save returns: the topic's tracker
  update (which ends in the update of the new forum), then the update of the forum the
  topic was stored under.
\<close>

lemma topic_save_other_forum:
  assumes "topic_id t = Some k" and "k \<noteq> 0" and "find_topic s k = Some old"
    and "topic_forum_id old \<noteq> topic_forum_id t"
    and "topic_save slugify now s t = Inr (s', t')"
  shows "calls s' = calls s @ [Topic_update_trackers (Some k),
                               Forum_update_trackers (topic_forum_id t),
                               Forum_update_trackers (topic_forum_id old)]"
proof -
  let ?t1 = "t\<lparr>topic_slug := slugify (topic_subject t)\<rparr>"
  obtain s1 t2 where sv: "topic_model_save True now s ?t1 = (s1, t2)"
    by (cases "topic_model_save True now s ?t1")
  note m = topic_model_save_auto_now [OF sv]
  have fo: "topic_forum_id (topic_fresh old) = topic_forum_id old"
    by (simp add: topic_fresh_def topic.defs)
  from assms(1,2,3,5) sv obtain f0 where f0: "get_forum s1 (topic_forum_id old) = Some f0"
    by (cases "get_forum s1 (topic_forum_id old)") (auto simp: topic_save_def get_topic_def fo)
  have id0: "forum_id f0 = topic_forum_id old"
    using f0 by (auto simp: get_forum_def dest: find_forum_id)
  then have ne: "forum_id f0 \<noteq> topic_forum_id t2" using m(1) assms(4) by simp
  from assms(1,2,3,5) sv f0 ne obtain s2 t3 f where
    u: "topic_update_trackers now s1 t2 = Inr (s2, t3)"
       "get_forum s2 (forum_id f0) = Some f"
       "forum_update_trackers s2 (forum_id f) = Inr s'"
    by (auto simp: topic_save_def get_topic_def fo split: sum.splits option.splits prod.splits)
  have fid: "forum_id f = topic_forum_id old"
    using u(2) id0 by (auto simp: get_forum_def dest: find_forum_id)
  from topic_update_trackers_result [OF u(1)] obtain k' where
    c: "topic_id t2 = Some k'"
       "calls s2 = calls s1 @ [Topic_update_trackers (Some k'),
                                Forum_update_trackers (topic_forum_id t2)]"
    by blast
  have "k' = k" using c(1) m(4) [of k] assms(1) by simp
  then show ?thesis
    using forum_update_trackers_frame(3) [OF u(3)] c(2) m(1,2) fid by simp
qed

text \<open>
  C5 at the failing input: a stored topic that has no post yet is saved with another
  forum. The row is stored under the new forum, \<^verbatim>\<open>update_trackers\<close> is called on the
  topic and raises AttributeError; the update of the old forum is never made, and the
  counters of both forums are as they were.
\<close>

theorem topic_save_reparent_without_posts:
  "topic_save (\<lambda>x. x) 20 db_empty_topic topic_moved
     = Inl (AttributeError,
            db_empty_topic\<lparr>topics := [a_topic 1 2 ''Hello'' 0 20],
                            calls := [Topic_update_trackers (Some 1)]\<rparr>)"
  by (simp add: eval_defs db_empty_topic_def topic_moved_def)

section \<open>Search without a permitted forum\<close>

lemma search_scope_unreadable:
  assumes "\<forall>f\<in>set fs. form_search_forums form = [] \<or> forum_id f \<in> set (form_search_forums form)
             \<longrightarrow> \<not> can_read user f"
  shows "search_scope can_read fs user form = []"
proof (cases "form_search_forums form = []")
  case True
  then have "filter (can_read user) fs = []" using assms by (simp add: filter_empty_conv)
  then show ?thesis using True by (simp add: search_scope_def)
next
  case False
  have "filter (\<lambda>k. k \<in> set (form_search_forums form)) (map forum_id (filter (can_read user) fs)) = []"
    using assms by (auto simp: filter_empty_conv)
  then show ?thesis using False by (simp add: search_scope_def Let_def)
qed

text \<open>
  C9: when the form fails validation, or the explicit forum ids intersected with the
  forums the requester may read leave no forum, the search returns the empty result and
  no error. That is so in particular when every forum the form names (every forum, for a
  form that names none) is one the requester cannot read; an id that names no forum
  names none the requester can read.
\<close>

theorem search_without_permitted_forum:
  "(\<not> is_valid form \<or> search_scope can_read fs user form = []
      \<longrightarrow> search is_valid can_read text_match fs index user form = Inr [])
   \<and> ((\<forall>f\<in>set fs. form_search_forums form = [] \<or> forum_id f \<in> set (form_search_forums form)
                     \<longrightarrow> \<not> can_read user f)
      \<longrightarrow> search is_valid can_read text_match fs index user form = Inr [])"
proof (intro conjI impI)
  assume "\<not> is_valid form \<or> search_scope can_read fs user form = []"
  then show "search is_valid can_read text_match fs index user form = Inr []"
    by (auto simp: search_def Let_def)
next
  assume "\<forall>f\<in>set fs. form_search_forums form = [] \<or> forum_id f \<in> set (form_search_forums form)
                     \<longrightarrow> \<not> can_read user f"
  then have "search_scope can_read fs user form = []" by (rule search_scope_unreadable)
  then show "search is_valid can_read text_match fs index user form = Inr []"
    by (simp add: search_def Let_def)
qed

theorem search_without_permitted_forum_witness:
  "search_scope (\<lambda>u f. forum_id f = 1) two_forums 7 form_second = []
   \<and> search (\<lambda>form. True) (\<lambda>u f. forum_id f = 1) (\<lambda>x y. x = y) two_forums [doc_in_second] 7
        form_second = Inr []
   \<and> search (\<lambda>form. True) (\<lambda>u f. forum_id f = 1) (\<lambda>x y. x = y) two_forums [doc_in_second] 7
        (form_second\<lparr>form_search_forums := [1000]\<rparr>) = Inr []
   \<and> search (\<lambda>form. True) (\<lambda>u f. True) (\<lambda>x y. x = y) two_forums [doc_in_second] 7
        form_second = Inr [doc_in_second]"
proof -
  let ?can = "\<lambda>(u::identity) f. forum_id f = 1"
  have h1: "search_scope ?can two_forums 7 form_second = []"
    by (simp add: search_scope_def two_forums_def form_second_def a_forum_def)
  have h2: "\<forall>f\<in>set two_forums.
              form_search_forums (form_second\<lparr>form_search_forums := [1000]\<rparr>) = []
              \<or> forum_id f \<in> set (form_search_forums (form_second\<lparr>form_search_forums := [1000]\<rparr>))
              \<longrightarrow> \<not> ?can 7 f"
    by (simp add: two_forums_def a_forum_def)
  have c1: "search (\<lambda>form. True) ?can (\<lambda>x y. x = y) two_forums [doc_in_second] 7 form_second = Inr []"
    using search_without_permitted_forum
      [of "\<lambda>form. True" form_second ?can two_forums 7 "\<lambda>x y. x = y" "[doc_in_second]"] h1
    by blast
  have c2: "search (\<lambda>form. True) ?can (\<lambda>x y. x = y) two_forums [doc_in_second] 7
        (form_second\<lparr>form_search_forums := [1000]\<rparr>) = Inr []"
    using search_without_permitted_forum
      [of "\<lambda>form. True" "form_second\<lparr>form_search_forums := [1000]\<rparr>" ?can two_forums 7
          "\<lambda>x y. x = y" "[doc_in_second]"] h2
    by blast
  have c3: "search (\<lambda>form. True) (\<lambda>u f. True) (\<lambda>x y. x = y) two_forums [doc_in_second] 7
        form_second = Inr [doc_in_second]"
    by (simp add: search_def search_scope_def two_forums_def form_second_def a_forum_def
        doc_in_second_def)
  show ?thesis using h1 c1 c2 c3 by blast
qed

section \<open>The walk up the hierarchy stops\<close>

lemma forum_walk_diverges_chain:
  "forum_walk n s k = Inl (Diverges, s') \<Longrightarrow>
     length (forum_chain n (forums s) k) = n
     \<and> set (forum_chain n (forums s) k) \<subseteq> forum_id ` set (forums s)"
proof (induction n arbitrary: s k)
  case 0
  then show ?case by simp
next
  case (Suc n)
  from Suc.prems obtain f where g: "get_forum s k = Some f"
    by (cases "get_forum s k") auto
  let ?s1 = "s\<lparr>forums := map (\<lambda>g. if forum_id g = k then forum_recount s f else g) (forums s)\<rparr>"
  from Suc.prems g obtain p where p: "forum_parent f = Some p"
    by (cases "forum_parent f") (auto simp: Let_def)
  with Suc.prems g have w: "forum_walk n ?s1 p = Inl (Diverges, s')" by (simp add: Let_def)
  have fk: "forum_id f = k" using g by (auto simp: get_forum_def dest: find_forum_id)
  have ch: "forum_chain n (forums ?s1) p = forum_chain n (forums s) p"
    using forum_chain_replace [OF g [unfolded get_forum_def], of "forum_recount s f" n p] fk
    by simp
  have kin: "k \<in> forum_id ` set (forums s)"
    using g fk by (auto simp: get_forum_def find_Some_iff image_iff)
  have ids: "forum_id ` set (forums ?s1) \<subseteq> forum_id ` set (forums s)"
  proof
    fix x assume "x \<in> forum_id ` set (forums ?s1)"
    then obtain g where "g \<in> set (forums s)"
      "x = forum_id (if forum_id g = k then forum_recount s f else g)" by auto
    then show "x \<in> forum_id ` set (forums s)" using fk kin by (cases "forum_id g = k") auto
  qed
  from Suc.IH [OF w] ch ids kin g p show ?case
    by (auto simp: get_forum_def)
qed

lemma distinct_within_keys:
  assumes "distinct xs" and "set xs \<subseteq> f ` set ys"
  shows "length xs \<le> length ys"
proof -
  have "length xs = card (set xs)" using assms(1) by (simp add: distinct_card)
  also have "\<dots> \<le> card (f ` set ys)" using assms(2) by (simp add: card_mono)
  also have "\<dots> \<le> card (set ys)" by (simp add: card_image_le)
  also have "\<dots> \<le> length ys" by (rule card_length)
  finally show ?thesis .
qed

text \<open>
  The forum-level update runs out of steps only in a hierarchy with a cycle: when the
  chain of ancestors of the forum repeats no forum, it returns or raises DoesNotExist.
\<close>

lemma forum_update_trackers_stops:
  assumes "distinct (forum_chain (Suc (length (forums s))) (forums s) k)"
  shows "forum_update_trackers s k \<noteq> Inl (Diverges, s')"
proof
  assume "forum_update_trackers s k = Inl (Diverges, s')"
  then have "forum_walk (Suc (length (forums s)))
               (s\<lparr>calls := calls s @ [Forum_update_trackers k]\<rparr>) k = Inl (Diverges, s')"
    by (simp add: forum_update_trackers_def)
  from forum_walk_diverges_chain [OF this]
  have l: "length (forum_chain (Suc (length (forums s))) (forums s) k) = Suc (length (forums s))"
    and sub: "set (forum_chain (Suc (length (forums s))) (forums s) k) \<subseteq> forum_id ` set (forums s)"
    by simp_all
  from distinct_within_keys [OF assms sub] l show False by simp
qed

section \<open>Tracker updates that return\<close>




section \<open>Post mutations that return\<close>







section \<open>Deleting a stored post\<close>








end
